theory Spec2Isabelle
  imports Complex_Main
begin

section \<open>Monte Carlo simulation of the Monty Hall problem\<close>

text \<open>
  The development follows \<^verbatim>\<open>src/montyhall/montyhall.py\<close>: the class \<^verbatim>\<open>Simulation\<close> with
  its methods \<^verbatim>\<open>__init__\<close>, \<^verbatim>\<open>sample\<close> and \<^verbatim>\<open>plot_results\<close>, and the driver under
  \<^verbatim>\<open>if __name__ == "__main__"\<close>. Python integers are unbounded, hence \<open>int\<close>; a
  one-dimensional numpy array is a list; an exception is a value of the type \<open>error\<close>.
\<close>

subsection \<open>Exceptions\<close>

text \<open>
  \<open>ValueError\<close> is what numpy raises for a negative array size or an empty interval,
  \<open>ZeroDivisionError\<close> what Python's \<^verbatim>\<open>/\<close> raises on a zero divisor, and
  \<open>Exception msg\<close> the plain \<^verbatim>\<open>Exception(msg)\<close> raised by \<^verbatim>\<open>plot_results\<close>.
\<close>

datatype error = ValueError | ZeroDivisionError | Exception string

subsection \<open>The random number generator\<close>

text \<open>
  \<^verbatim>\<open>np.random\<close> is a library, not part of the repository. Its global generator is made an
  explicit state: the sequence of raw draws not yet consumed, index \<open>0\<close> being the next
  one. \<^verbatim>\<open>randint(low, high)\<close> delivers one integer of the half-open interval
  \<open>[low, high)\<close> and \<^verbatim>\<open>randint(low, high, n)\<close> an array of \<open>n\<close> of them; a raw draw is
  reduced into the interval, so that every sequence of in-range results is delivered by
  some generator state and no other result is. One raw draw stands for one delivered
  value. A negative size and an empty interval raise \<open>ValueError\<close> before anything is
  drawn.
\<close>

type_synonym rng = "nat \<Rightarrow> nat"

definition advance :: "nat \<Rightarrow> rng \<Rightarrow> rng" where
  "advance k g = (\<lambda>i. g (i + k))"

definition reduce :: "int \<Rightarrow> int \<Rightarrow> nat \<Rightarrow> int" where
  "reduce low high r = low + int (r mod nat (high - low))"

definition randint :: "int \<Rightarrow> int \<Rightarrow> rng \<Rightarrow> (error + int) \<times> rng" where
  "randint low high g =
     (if high \<le> low then (Inl ValueError, g)
      else (Inr (reduce low high (g 0)), advance 1 g))"

definition randint_size :: "int \<Rightarrow> int \<Rightarrow> int \<Rightarrow> rng \<Rightarrow> (error + int list) \<times> rng" where
  "randint_size low high n g =
     (if high \<le> low \<or> n < 0 then (Inl ValueError, g)
      else (Inr (map (\<lambda>i. reduce low high (g i)) [0..<nat n]), advance (nat n) g))"

subsection \<open>The array operations used by \<^verbatim>\<open>sample\<close>\<close>

text \<open>
  \<open>eq_scalar xs c\<close> is \<^verbatim>\<open>xs == c\<close> for an array and a scalar; \<open>eq_arrays xs ys\<close> is
  \<^verbatim>\<open>xs == ys\<close> for two arrays of one shape; \<open>np_where c x ys\<close> is
  \<^verbatim>\<open>np.where(c, x, ys)\<close> with the scalar \<open>x\<close> broadcast over the array;
  \<open>np_ones n\<close> is \<^verbatim>\<open>np.ones(n).astype(int)\<close>; \<open>mask_index xs m\<close> is the boolean-mask
  indexing \<^verbatim>\<open>xs[m]\<close>.
\<close>

definition eq_scalar :: "'a list \<Rightarrow> 'a \<Rightarrow> bool list" where
  "eq_scalar xs c = map (\<lambda>x. x = c) xs"

definition eq_arrays :: "'a list \<Rightarrow> 'a list \<Rightarrow> bool list" where
  "eq_arrays xs ys = map (\<lambda>(x, y). x = y) (zip xs ys)"

definition np_where :: "bool list \<Rightarrow> 'a \<Rightarrow> 'a list \<Rightarrow> 'a list" where
  "np_where c x ys = map (\<lambda>(b, y). if b then x else y) (zip c ys)"

definition np_ones :: "int \<Rightarrow> error + int list" where
  "np_ones n = (if n < 0 then Inl ValueError else Inr (replicate (nat n) 1))"

definition mask_index :: "'a list \<Rightarrow> bool list \<Rightarrow> 'a list" where
  "mask_index xs m = map fst (filter snd (zip xs m))"

subsection \<open>The class \<^verbatim>\<open>Simulation\<close>\<close>

text \<open>
  The six attributes set by \<^verbatim>\<open>__init__\<close>. The three array attributes are created by
  \<^verbatim>\<open>np.ndarray([])\<close>, a zero-dimensional array whose single cell is uninitialised memory,
  so their initial contents are a parameter of the constructor. No method reads or
  writes them afterwards.
\<close>

record simulation =
  samples :: int
  winning_doors :: int
  win_if_staying :: bool
  win_if_switching :: bool
  num_wins_if_staying :: int
  num_wins_if_switching :: int

definition Simulation_init :: "int \<times> bool \<times> bool \<Rightarrow> simulation" where
  "Simulation_init u =
     \<lparr>samples = 0,
      winning_doors = fst u,
      win_if_staying = fst (snd u),
      win_if_switching = snd (snd u),
      num_wins_if_staying = 0,
      num_wins_if_switching = 0\<rparr>"

text \<open>
  The local arrays of one call of \<^verbatim>\<open>sample\<close> (lines 39 to 46): the prize doors, the doors
  offered for switching and the two outcome arrays.
\<close>

record batch =
  b_winning_doors :: "int list"
  b_switch_doors :: "int list"
  b_win_if_staying :: "bool list"
  b_win_if_switching :: "bool list"

definition draw_batch :: "int \<Rightarrow> rng \<Rightarrow> (error + batch) \<times> rng" where
  "draw_batch n g =
     (case randint_size 1 4 n g of
        (Inl e, g1) \<Rightarrow> (Inl e, g1)
      | (Inr wd, g1) \<Rightarrow>
          (case randint 2 4 g1 of
             (Inl e, g2) \<Rightarrow> (Inl e, g2)
           | (Inr h, g2) \<Rightarrow>
               (let sd = np_where (eq_scalar wd 1) h wd in
                case np_ones n of
                  Inl e \<Rightarrow> (Inl e, g2)
                | Inr ones \<Rightarrow>
                    (Inr \<lparr>b_winning_doors = wd,
                          b_switch_doors = sd,
                          b_win_if_staying = eq_arrays wd ones,
                          b_win_if_switching = eq_arrays wd sd\<rparr>, g2))))"

text \<open>
  \<^verbatim>\<open>sample\<close> itself: line 36 updates \<^verbatim>\<open>self.samples\<close> first, lines 39 to 46 compute the
  batch, lines 48 and 49 add the numbers of wins. An exception leaves the object as it
  is at the moment of the raise.
\<close>

definition sample :: "int \<Rightarrow> simulation \<times> rng \<Rightarrow> (error + unit) \<times> simulation \<times> rng" where
  "sample n sg =
     (let self = (fst sg)\<lparr>samples := samples (fst sg) + n\<rparr> in
      case draw_batch n (snd sg) of
        (Inl e, g') \<Rightarrow> (Inl e, self, g')
      | (Inr b, g') \<Rightarrow>
          (let stay = b_win_if_staying b;
               switch = b_win_if_switching b;
               self = self\<lparr>num_wins_if_staying := num_wins_if_staying self
                              + int (length (mask_index stay (eq_scalar stay True)))\<rparr>;
               self = self\<lparr>num_wins_if_switching := num_wins_if_switching self
                              + int (length (mask_index switch (eq_scalar switch True)))\<rparr>
           in (Inr (), self, g')))"

text \<open>
  \<^verbatim>\<open>plot_results\<close>: the call of \<^verbatim>\<open>plt.bar\<close> draws on an external figure and has no effect
  on the object.
\<close>

definition plot_results :: "simulation \<Rightarrow> error + unit" where
  "plot_results self =
     (if samples self > 0 then Inr ()
      else Inl (Exception ''No results to plot. Must sample first.''))"

text \<open>
  Python's \<^verbatim>\<open>a / b\<close> on two integers. The float it returns is the correctly rounded
  exact quotient; the model keeps the exact quotient.
\<close>

definition py_truediv :: "int \<Rightarrow> int \<Rightarrow> error + rat" where
  "py_truediv a b = (if b = 0 then Inl ZeroDivisionError else Inr (of_int a / of_int b))"

text \<open>
  Lines 67 to 70 of the driver: \<^verbatim>\<open>plot_results\<close>, then the two percentages that are
  printed, each \<^verbatim>\<open>wins / samples * 100.\<close>
\<close>

definition report :: "simulation \<Rightarrow> error + rat \<times> rat" where
  "report sim =
     (case plot_results sim of
        Inl e \<Rightarrow> Inl e
      | Inr _ \<Rightarrow>
          (case py_truediv (num_wins_if_staying sim) (samples sim) of
             Inl e \<Rightarrow> Inl e
           | Inr p \<Rightarrow>
               (case py_truediv (num_wins_if_switching sim) (samples sim) of
                  Inl e \<Rightarrow> Inl e
                | Inr q \<Rightarrow> Inr (p * 100, q * 100))))"

text \<open>The whole driver, lines 64 to 70.\<close>

definition main :: "int \<times> bool \<times> bool \<Rightarrow> rng \<Rightarrow> error + rat \<times> rat" where
  "main u g =
     (let sim = Simulation_init u;
          n_samples = 1000000
      in case sample n_samples (sim, g) of
           (Inl e, sim', g') \<Rightarrow> Inl e
         | (Inr _, sim', g') \<Rightarrow> report sim')"

text \<open>
  The states of a \<^verbatim>\<open>Simulation\<close> object that a caller can reach from a fresh object by
  calls of \<^verbatim>\<open>sample\<close> that return normally.
\<close>

inductive reachable :: "simulation \<Rightarrow> bool" where
  fresh: "reachable (Simulation_init u)"
| call: "reachable s \<Longrightarrow> sample n (s, g) = (Inr (), s', g') \<Longrightarrow> reachable s'"

text \<open>The number of wins in an outcome array.\<close>

definition count_true :: "bool list \<Rightarrow> int" where
  "count_true bs = int (length (filter (\<lambda>b. b) bs))"

text \<open>
  What one call \<^verbatim>\<open>sample(n)\<close> reads from the generator \<open>g\<close>: the \<open>n\<close> prize doors of
  line 39, then the single door of line 43.
\<close>

definition prize_draws :: "int \<Rightarrow> rng \<Rightarrow> int list" where
  "prize_draws n g = map (\<lambda>i. reduce 1 4 (g i)) [0..<nat n]"

definition host_draw :: "int \<Rightarrow> rng \<Rightarrow> int" where
  "host_draw n g = reduce 2 4 (g (nat n))"

text \<open>
  Generator states for the worked examples: the raw draws \<open>0, 1, 2, \<dots>\<close>, the raw draws
  \<open>2, 3, 4, \<dots>\<close>, and the first of these with another sixth draw.
\<close>

definition counting_rng :: rng where
  "counting_rng = (\<lambda>i. i)"

definition shifted_rng :: rng where
  "shifted_rng = (\<lambda>i. i + 2)"

definition other_host_rng :: rng where
  "other_host_rng = (\<lambda>i. if i = 5 then 0 else i)"

section \<open>Properties\<close>

subsection \<open>The generator and the array operations\<close>

lemma reduce_range: "low < high \<Longrightarrow> low \<le> reduce low high r \<and> reduce low high r < high"
proof -
  assume lt: "low < high"
  then have pos: "0 < nat (high - low)" by simp
  have "int (r mod nat (high - low)) < int (nat (high - low))"
    using pos by (simp only: of_nat_less_iff mod_less_divisor)
  then show ?thesis using lt by (simp add: reduce_def)
qed

lemma reduce_door: "reduce 1 4 r \<in> {1, 2, 3}"
  using reduce_range [of 1 4 r] by auto

lemma reduce_host: "reduce 2 4 r \<in> {2, 3}"
  using reduce_range [of 2 4 r] by auto

lemma eq_arrays_ones: "eq_arrays xs (replicate (length xs) c) = map (\<lambda>x. x = c) xs"
  by (induction xs) (simp_all add: eq_arrays_def)

lemma eq_arrays_map: "eq_arrays xs (map f xs) = map (\<lambda>x. x = f x) xs"
  by (induction xs) (simp_all add: eq_arrays_def)

lemma np_where_scalar:
  "np_where (eq_scalar xs c) h xs = map (\<lambda>x. if x = c then h else x) xs"
  by (induction xs) (simp_all add: np_where_def eq_scalar_def)

lemma mask_index_true: "mask_index bs (eq_scalar bs True) = filter (\<lambda>b. b) bs"
  by (induction bs) (simp_all add: mask_index_def eq_scalar_def)

lemma len_mask_index: "int (length (mask_index bs (eq_scalar bs True))) = count_true bs"
  by (simp add: mask_index_true count_true_def)

lemma count_true_append: "count_true (xs @ ys) = count_true xs + count_true ys"
  by (simp add: count_true_def)

lemma count_true_partition:
  "count_true (map P xs) + count_true (map (\<lambda>x. \<not> P x) xs) = int (length xs)"
  by (induction xs) (simp_all add: count_true_def)

lemma prize_draws_length: "length (prize_draws n g) = nat n"
  by (simp add: prize_draws_def)

lemma prize_draws_nth: "i < nat n \<Longrightarrow> prize_draws n g ! i = reduce 1 4 (g i)"
  by (simp add: prize_draws_def)

lemma host_draw_door: "host_draw n g \<in> {2, 3}"
  by (simp only: host_draw_def reduce_host)

subsection \<open>The batch of one call\<close>

text \<open>A negative size makes line 39 raise, with nothing drawn.\<close>

lemma draw_batch_negative: "n < 0 \<Longrightarrow> draw_batch n g = (Inl ValueError, g)"
  by (simp add: draw_batch_def randint_size_def)

text \<open>Otherwise the four arrays are these, and \<open>n + 1\<close> values have been drawn.\<close>

lemma draw_batch_ok:
  assumes "0 \<le> n"
  shows "draw_batch n g =
           (Inr \<lparr>b_winning_doors = prize_draws n g,
                 b_switch_doors = map (\<lambda>w. if w = 1 then host_draw n g else w) (prize_draws n g),
                 b_win_if_staying = map (\<lambda>w. w = 1) (prize_draws n g),
                 b_win_if_switching = map (\<lambda>w. w \<noteq> 1) (prize_draws n g)\<rparr>,
            advance (nat n + 1) g)"
proof -
  let ?wd = "prize_draws n g"
  let ?h = "host_draw n g"
  have draws: "randint_size 1 4 n g = (Inr ?wd, advance (nat n) g)"
    using assms by (simp add: randint_size_def prize_draws_def)
  have host: "randint 2 4 (advance (nat n) g) = (Inr ?h, advance (nat n + 1) g)"
    by (simp add: randint_def host_draw_def advance_def)
  have ones: "np_ones n = Inr (replicate (length ?wd) 1)"
    using assms by (simp add: np_ones_def prize_draws_length)
  have "?h \<noteq> 1" using host_draw_door [of n g] by auto
  then have switching: "map (\<lambda>w. w = (if w = 1 then ?h else w)) ?wd = map (\<lambda>w. w \<noteq> 1) ?wd"
    by auto
  show ?thesis
    by (simp add: draw_batch_def draws host ones eq_arrays_ones eq_arrays_map
        np_where_scalar switching Let_def)
qed

subsection \<open>One call of \<^verbatim>\<open>sample\<close>\<close>

lemma sample_negative:
  "n < 0 \<Longrightarrow> sample n (s, g) = (Inl ValueError, s\<lparr>samples := samples s + n\<rparr>, g)"
  by (simp add: sample_def draw_batch_negative)

lemma sample_ok:
  assumes "0 \<le> n"
  shows "sample n (s, g) =
           (Inr (),
            s\<lparr>samples := samples s + n,
              num_wins_if_staying := num_wins_if_staying s
                + count_true (map (\<lambda>w. w = 1) (prize_draws n g)),
              num_wins_if_switching := num_wins_if_switching s
                + count_true (map (\<lambda>w. w \<noteq> 1) (prize_draws n g))\<rparr>,
            advance (nat n + 1) g)"
  by (simp add: sample_def draw_batch_ok [OF assms] len_mask_index Let_def)

lemma sample_succeeds_iff: "fst (sample n (s, g)) = Inr () \<longleftrightarrow> 0 \<le> n"
proof (cases "0 \<le> n")
  case True
  then show ?thesis by (simp add: sample_ok)
next
  case False
  then show ?thesis by (simp add: sample_negative)
qed

text \<open>Every successful call keeps the sum of the two win counts equal to \<open>samples\<close>.\<close>

definition conserved :: "simulation \<Rightarrow> bool" where
  "conserved s \<longleftrightarrow>
     0 \<le> num_wins_if_staying s \<and> 0 \<le> num_wins_if_switching s \<and>
     num_wins_if_staying s + num_wins_if_switching s = samples s"

lemma count_true_nonneg: "0 \<le> count_true bs"
  by (simp add: count_true_def)

lemma conserved_init: "conserved (Simulation_init u)"
  by (simp add: conserved_def Simulation_init_def)

lemma conserved_sample:
  assumes "conserved s" and "sample n (s, g) = (Inr (), s', g')"
  shows "conserved s'"
proof -
  from assms(2) have "fst (sample n (s, g)) = Inr ()" by simp
  then have n: "0 \<le> n" by (simp only: sample_succeeds_iff)
  have part: "count_true (map (\<lambda>w. w = 1) (prize_draws n g))
      + count_true (map (\<lambda>w. w \<noteq> 1) (prize_draws n g)) = n"
    using count_true_partition [of "\<lambda>w. w = 1" "prize_draws n g"] n
    by (simp add: prize_draws_length)
  from assms(2) have s': "s' = s\<lparr>samples := samples s + n,
      num_wins_if_staying := num_wins_if_staying s
        + count_true (map (\<lambda>w. w = 1) (prize_draws n g)),
      num_wins_if_switching := num_wins_if_switching s
        + count_true (map (\<lambda>w. w \<noteq> 1) (prize_draws n g))\<rparr>"
    by (simp add: sample_ok [OF n])
  show ?thesis
    using assms(1) part
      count_true_nonneg [of "map (\<lambda>w. w = 1) (prize_draws n g)"]
      count_true_nonneg [of "map (\<lambda>w. w \<noteq> 1) (prize_draws n g)"]
    by (simp add: s' conserved_def)
qed

lemma reachable_conserved: "reachable s \<Longrightarrow> conserved s"
proof (induction rule: reachable.induct)
  case (fresh u)
  show ?case by (rule conserved_init)
next
  case (call s n g s' g')
  then show ?case by (blast intro: conserved_sample)
qed

lemma prize_draws_cong:
  "(\<forall>i < nat n. g1 i = g2 i) \<Longrightarrow> prize_draws n g1 = prize_draws n g2"
  by (simp add: prize_draws_def)

lemma reachable_sample:
  "0 \<le> n \<Longrightarrow> reachable (fst (snd (sample n (Simulation_init u, g))))"
proof -
  assume n: "0 \<le> n"
  let ?after = "fst (snd (sample n (Simulation_init u, g)))"
  have "sample n (Simulation_init u, g) = (Inr (), ?after, advance (nat n + 1) g)"
    by (simp add: sample_ok [OF n])
  then show "reachable ?after"
    by (rule reachable.call [OF reachable.fresh])
qed

lemma ratio_bounds:
  fixes a b :: int
  assumes "0 \<le> a" and "a \<le> b" and "0 < b"
  shows "0 \<le> (of_int a / of_int b :: rat) \<and> (of_int a / of_int b :: rat) \<le> 1"
  using assms by simp

text \<open>The driver never fails: a million samples are drawn, so the guard of \<^verbatim>\<open>plot_results\<close> passes.\<close>

lemma report_succeeds: "0 < samples s \<Longrightarrow> \<exists>p q. report s = Inr (p, q)"
  by (simp add: report_def plot_results_def py_truediv_def)

lemma sample_then_report:
  assumes "0 < n"
  shows "\<exists>p q. (case sample n (Simulation_init u, g) of
                  (Inl e, sim', g') \<Rightarrow> Inl e
                | (Inr _, sim', g') \<Rightarrow> report sim') = Inr (p, q)"
proof -
  from assms have n: "0 \<le> n" by simp
  show ?thesis
    using assms by (simp add: sample_ok [OF n] Simulation_init_def report_succeeds)
qed

lemma main_succeeds: "\<exists>p q. main u g = Inr (p, q)"
  unfolding main_def Let_def by (rule sample_then_report) simp

subsection \<open>Worked examples\<close>

lemma draws5: "prize_draws 5 counting_rng = [1, 2, 3, 1, 2]"
  by code_simp

lemma stay5: "count_true (map (\<lambda>w. w = 1) (prize_draws 5 counting_rng)) = 2"
  by code_simp

lemma switch5: "count_true (map (\<lambda>w. w \<noteq> 1) (prize_draws 5 counting_rng)) = 3"
  by code_simp

lemma stay_first: "count_true (map (\<lambda>w. w = 1) (prize_draws 10 shifted_rng)) = 3"
  by code_simp

lemma stay_second:
  "count_true (map (\<lambda>w. w = 1) (prize_draws 20 (advance (nat 10 + 1) shifted_rng))) = 6"
  by code_simp

lemma stay10: "count_true (map (\<lambda>w. w = 1) (prize_draws 10 counting_rng)) = 4"
  by code_simp

lemma switch10: "count_true (map (\<lambda>w. w \<noteq> 1) (prize_draws 10 counting_rng)) = 6"
  by code_simp

lemma draws5_other: "prize_draws 5 other_host_rng = [1, 2, 3, 1, 2]"
  by code_simp

lemma host5_other: "host_draw 5 other_host_rng = 2"
  by code_simp

subsection \<open>The report of the driver\<close>

text \<open>
  When \<^verbatim>\<open>samples == 0\<close> the report fails with the exception that \<^verbatim>\<open>plot_results\<close> raises
  explicitly, and it never fails with \<open>ZeroDivisionError\<close>. In a state reached by calls that
  all returned normally, with \<^verbatim>\<open>samples > 0\<close>, the two quotients lie between \<open>0\<close> and \<open>1\<close>
  and the report gives them as percentages.
\<close>

lemma report_guard:
  "(samples s = 0 \<longrightarrow> report s = Inl (Exception ''No results to plot. Must sample first.'')) \<and>
   report s \<noteq> Inl ZeroDivisionError \<and>
   (reachable s \<and> 0 < samples s \<longrightarrow>
      (\<exists>p q. py_truediv (num_wins_if_staying s) (samples s) = Inr p \<and>
             py_truediv (num_wins_if_switching s) (samples s) = Inr q \<and>
             report s = Inr (p * 100, q * 100) \<and>
             p = of_int (num_wins_if_staying s) / of_int (samples s) \<and>
             q = of_int (num_wins_if_switching s) / of_int (samples s) \<and>
             0 \<le> p \<and> p \<le> 1 \<and> 0 \<le> q \<and> q \<le> 1))"
proof (intro conjI impI)
  assume "samples s = 0"
  then show "report s = Inl (Exception ''No results to plot. Must sample first.'')"
    by (simp add: report_def plot_results_def)
next
  show "report s \<noteq> Inl ZeroDivisionError"
    by (simp add: report_def plot_results_def py_truediv_def)
next
  assume a: "reachable s \<and> 0 < samples s"
  then have c: "conserved s" by (simp add: reachable_conserved)
  from a have pos: "0 < samples s" by simp
  from c have st: "0 \<le> num_wins_if_staying s" "num_wins_if_staying s \<le> samples s"
    and sw: "0 \<le> num_wins_if_switching s" "num_wins_if_switching s \<le> samples s"
    by (simp_all add: conserved_def)
  show "\<exists>p q. py_truediv (num_wins_if_staying s) (samples s) = Inr p \<and>
             py_truediv (num_wins_if_switching s) (samples s) = Inr q \<and>
             report s = Inr (p * 100, q * 100) \<and>
             p = of_int (num_wins_if_staying s) / of_int (samples s) \<and>
             q = of_int (num_wins_if_switching s) / of_int (samples s) \<and>
             0 \<le> p \<and> p \<le> 1 \<and> 0 \<le> q \<and> q \<le> 1"
    using pos ratio_bounds [OF st pos] ratio_bounds [OF sw pos]
    by (simp add: report_def plot_results_def py_truediv_def)
qed

lemma report_guard_example:
  "samples (Simulation_init (0, False, False)) = 0 \<and>
   report (Simulation_init (0, False, False))
     = Inl (Exception ''No results to plot. Must sample first.'') \<and>
   reachable (fst (snd (sample 5 (Simulation_init (0, False, False), counting_rng)))) \<and>
   0 < samples (fst (snd (sample 5 (Simulation_init (0, False, False), counting_rng)))) \<and>
   report (fst (snd (sample 5 (Simulation_init (0, False, False), counting_rng))))
     = Inr (40, 60)"
proof -
  let ?init = "Simulation_init (0, False, False)"
  let ?after = "fst (snd (sample 5 (?init, counting_rng)))"
  have z: "samples ?init = 0" by (simp add: Simulation_init_def)
  have r: "reachable ?after" by (simp add: reachable_sample)
  have vals: "samples ?after = 5" "num_wins_if_staying ?after = 2" "num_wins_if_switching ?after = 3"
    by (simp_all add: sample_ok Simulation_init_def stay5 switch5)
  from report_guard [of ?init] z
  have "report ?init = Inl (Exception ''No results to plot. Must sample first.'')" by blast
  moreover from report_guard [of ?after] r vals have "report ?after = Inr (40, 60)"
    by (auto simp add: py_truediv_def)
  ultimately show ?thesis using z r vals by simp
qed

section \<open>The claims\<close>

text \<open>
  \<^bold>\<open>C1\<close> (partition invariant). One call \<^verbatim>\<open>sample(n)\<close> with \<open>n \<ge> 1\<close> produces its batch,
  the two outcome arrays have length \<open>n\<close>, and at every index exactly one of
  \<^verbatim>\<open>win_if_staying[i]\<close> and \<^verbatim>\<open>win_if_switching[i]\<close> is true.
\<close>

theorem partition_invariant:
  assumes "1 \<le> n"
  shows "\<exists>b g'. draw_batch n g = (Inr b, g') \<and>
           length (b_win_if_staying b) = nat n \<and>
           length (b_win_if_switching b) = nat n \<and>
           (\<forall>i < nat n. b_win_if_staying b ! i \<noteq> b_win_if_switching b ! i)"
proof -
  from assms have n: "0 \<le> n" by simp
  show ?thesis
    by (simp add: draw_batch_ok [OF n] prize_draws_length)
qed

theorem partition_invariant_witness:
  "(1::int) \<le> 3 \<and>
   (\<exists>b g'. draw_batch 3 counting_rng = (Inr b, g') \<and>
           length (b_win_if_staying b) = nat 3 \<and>
           length (b_win_if_switching b) = nat 3 \<and>
           (\<forall>i < nat 3. b_win_if_staying b ! i \<noteq> b_win_if_switching b ! i))"
  using partition_invariant [of 3 counting_rng] by simp

text \<open>
  \<^bold>\<open>C2\<close> (conservation invariant). In every state reached from a fresh \<^verbatim>\<open>Simulation\<close> by
  calls of \<^verbatim>\<open>sample\<close> that return normally,
  \<^verbatim>\<open>num_wins_if_staying + num_wins_if_switching == samples\<close>.
\<close>

theorem conservation_invariant:
  "reachable s \<Longrightarrow> num_wins_if_staying s + num_wins_if_switching s = samples s"
  using reachable_conserved [of s] by (simp add: conserved_def)

theorem conservation_invariant_witness:
  "reachable (fst (snd (sample 3 (Simulation_init (0, False, False), counting_rng)))) \<and>
   samples (fst (snd (sample 3 (Simulation_init (0, False, False), counting_rng)))) = 3 \<and>
   num_wins_if_staying (fst (snd (sample 3 (Simulation_init (0, False, False), counting_rng))))
     + num_wins_if_switching (fst (snd (sample 3 (Simulation_init (0, False, False), counting_rng))))
     = samples (fst (snd (sample 3 (Simulation_init (0, False, False), counting_rng))))"
proof -
  let ?after = "fst (snd (sample 3 (Simulation_init (0, False, False), counting_rng)))"
  have "sample 3 (Simulation_init (0, False, False), counting_rng)
          = (Inr (), ?after, advance (nat 3 + 1) counting_rng)"
    by (simp add: sample_ok)
  then have r: "reachable ?after"
    by (rule reachable.call [OF reachable.fresh])
  have "samples ?after = 3"
    by (simp add: sample_ok Simulation_init_def)
  with r conservation_invariant [OF r] show ?thesis by simp
qed

text \<open>
  \<^bold>\<open>C3\<close> (outcome rule). At every index of a batch the prize door is one of the three
  doors; staying wins exactly when the prize door is \<open>1\<close>; switching wins exactly when the
  prize door is the switch door; the switch door is the prize door when that is not
  \<open>1\<close>, so that switching wins, and is door \<open>2\<close> or \<open>3\<close> when the prize is behind door
  \<open>1\<close>, so that switching loses.
\<close>

theorem outcome_rule:
  assumes "0 \<le> n"
  shows "\<exists>b g'. draw_batch n g = (Inr b, g') \<and>
           length (b_winning_doors b) = nat n \<and>
           length (b_switch_doors b) = nat n \<and>
           length (b_win_if_staying b) = nat n \<and>
           length (b_win_if_switching b) = nat n \<and>
           (\<forall>i < nat n.
              b_winning_doors b ! i \<in> {1, 2, 3} \<and>
              (b_win_if_staying b ! i \<longleftrightarrow> b_winning_doors b ! i = 1) \<and>
              (b_win_if_switching b ! i \<longleftrightarrow> b_winning_doors b ! i = b_switch_doors b ! i) \<and>
              (b_winning_doors b ! i \<noteq> 1 \<longrightarrow>
                 b_switch_doors b ! i = b_winning_doors b ! i \<and> b_win_if_switching b ! i) \<and>
              (b_winning_doors b ! i = 1 \<longrightarrow>
                 b_switch_doors b ! i \<in> {2, 3} \<and> \<not> b_win_if_switching b ! i))"
proof -
  have door: "prize_draws n g ! i \<in> {1, 2, 3}" if "i < nat n" for i
    using that by (simp only: prize_draws_nth reduce_door)
  have host: "host_draw n g = 2 \<or> host_draw n g = 3"
    using host_draw_door [of n g] by simp
  show ?thesis
    using door host by (auto simp add: draw_batch_ok [OF assms] prize_draws_length)
qed

theorem outcome_rule_witness:
  "(0::int) \<le> 5 \<and>
   (\<exists>b g'. draw_batch 5 counting_rng = (Inr b, g') \<and>
           length (b_winning_doors b) = nat 5 \<and>
           length (b_switch_doors b) = nat 5 \<and>
           length (b_win_if_staying b) = nat 5 \<and>
           length (b_win_if_switching b) = nat 5 \<and>
           (\<forall>i < nat 5.
              b_winning_doors b ! i \<in> {1, 2, 3} \<and>
              (b_win_if_staying b ! i \<longleftrightarrow> b_winning_doors b ! i = 1) \<and>
              (b_win_if_switching b ! i \<longleftrightarrow> b_winning_doors b ! i = b_switch_doors b ! i) \<and>
              (b_winning_doors b ! i \<noteq> 1 \<longrightarrow>
                 b_switch_doors b ! i = b_winning_doors b ! i \<and> b_win_if_switching b ! i) \<and>
              (b_winning_doors b ! i = 1 \<longrightarrow>
                 b_switch_doors b ! i \<in> {2, 3} \<and> \<not> b_win_if_switching b ! i)))"
  using outcome_rule [of 5 counting_rng] by simp

text \<open>
  The claim that every batch size \<open>n \<le> 0\<close> is rejected fails at \<open>n = 0\<close>: the call returns
  normally.
\<close>

theorem sample_zero_succeeds:
  "fst (sample 0 (Simulation_init (0, False, False), counting_rng)) = Inr ()"
  by (simp add: sample_ok)

text \<open>
  \<^bold>\<open>C4\<close> (rejected batch sizes). \<^verbatim>\<open>sample(n)\<close> fails for every negative \<open>n\<close>, with the \<open>ValueError\<close> of
  \<^verbatim>\<open>np.random.randint\<close> for a negative size; \<^verbatim>\<open>sample(0)\<close> returns normally: the object is
  as before and the generator has delivered the one value of line 43.
\<close>

theorem sample_rejects_negative_only:
  "(n < 0 \<longrightarrow> fst (sample n (s, g)) = Inl ValueError) \<and>
   sample 0 (s, g) = (Inr (), s, advance 1 g)"
  by (simp add: sample_negative sample_ok prize_draws_def count_true_def)

theorem sample_rejects_negative_only_witness:
  "(-5::int) < 0 \<and>
   fst (sample (-5) (Simulation_init (0, False, False), counting_rng)) = Inl ValueError \<and>
   sample 0 (Simulation_init (0, False, False), counting_rng)
     = (Inr (), Simulation_init (0, False, False), advance 1 counting_rng)"
  using sample_rejects_negative_only [of "-5" "Simulation_init (0, False, False)" counting_rng]
  by simp

text \<open>
  \<^bold>\<open>C5\<close> (rejection before any mutation) does not hold of the code: line 36 has added \<open>n\<close>
  to \<^verbatim>\<open>samples\<close> before line 39 raises. On a fresh object \<^verbatim>\<open>sample(-5)\<close> raises
  \<open>ValueError\<close> and leaves \<^verbatim>\<open>samples == -5\<close>, the two win counts being \<open>0\<close> as before.
\<close>

theorem failed_sample_changes_samples:
  "sample (-5) (Simulation_init (0, False, False), counting_rng) =
     (Inl ValueError,
      \<lparr>samples = -5, winning_doors = 0, win_if_staying = False, win_if_switching = False,
       num_wins_if_staying = 0, num_wins_if_switching = 0\<rparr>,
      counting_rng)"
  by (simp add: sample_negative Simulation_init_def)

text \<open>
  \<^bold>\<open>C6\<close> (guarded probability) does not hold of the code: the quotient is not always a
  number between \<open>0\<close> and \<open>1\<close>. On a fresh object \<^verbatim>\<open>sample(-5)\<close> raises \<open>ValueError\<close> after
  line 36 has set \<^verbatim>\<open>samples\<close> to \<open>-5\<close>; a following \<^verbatim>\<open>sample(10)\<close> returns normally and
  leaves \<^verbatim>\<open>samples == 5\<close> with \<open>4\<close> stay wins and \<open>6\<close> switch wins; lines 67 to 70 then pass
  the guard of \<^verbatim>\<open>plot_results\<close> and give the switch quotient \<open>6/5\<close>, printed as \<open>120\<close> per
  cent.
\<close>

theorem report_after_failed_sample:
  "sample (-5) (Simulation_init (0, False, False), counting_rng)
     = (Inl ValueError, (Simulation_init (0, False, False))\<lparr>samples := -5\<rparr>, counting_rng) \<and>
   fst (sample 10 ((Simulation_init (0, False, False))\<lparr>samples := -5\<rparr>, counting_rng)) = Inr () \<and>
   fst (snd (sample 10 ((Simulation_init (0, False, False))\<lparr>samples := -5\<rparr>, counting_rng)))
     = \<lparr>samples = 5, winning_doors = 0, win_if_staying = False, win_if_switching = False,
        num_wins_if_staying = 4, num_wins_if_switching = 6\<rparr> \<and>
   py_truediv 6 5 = Inr (6 / 5) \<and>
   \<not> (6 / 5 :: rat) \<le> 1 \<and>
   report \<lparr>samples = 5, winning_doors = 0, win_if_staying = False, win_if_switching = False,
           num_wins_if_staying = 4, num_wins_if_switching = 6\<rparr> = Inr (80, 120)"
proof (intro conjI)
  show "sample (-5) (Simulation_init (0, False, False), counting_rng)
     = (Inl ValueError, (Simulation_init (0, False, False))\<lparr>samples := -5\<rparr>, counting_rng)"
    by (simp add: sample_negative Simulation_init_def)
  have ok: "(0::int) \<le> 10" by simp
  show "fst (sample 10 ((Simulation_init (0, False, False))\<lparr>samples := -5\<rparr>, counting_rng)) = Inr ()"
    by (simp add: sample_ok [OF ok])
  show "fst (snd (sample 10 ((Simulation_init (0, False, False))\<lparr>samples := -5\<rparr>, counting_rng)))
     = \<lparr>samples = 5, winning_doors = 0, win_if_staying = False, win_if_switching = False,
        num_wins_if_staying = 4, num_wins_if_switching = 6\<rparr>"
    by (simp add: sample_ok [OF ok] stay10 switch10 Simulation_init_def)
  show "py_truediv 6 5 = Inr (6 / 5)"
    by (simp add: py_truediv_def)
  show "\<not> (6 / 5 :: rat) \<le> 1" by simp
  show "report \<lparr>samples = 5, winning_doors = 0, win_if_staying = False, win_if_switching = False,
           num_wins_if_staying = 4, num_wins_if_switching = 6\<rparr> = Inr (80, 120)"
    by (simp add: report_def plot_results_def py_truediv_def)
qed

text \<open>
  \<^bold>\<open>C7\<close> (pure accumulation). A successful call adds \<open>n\<close> to \<^verbatim>\<open>samples\<close>, the number of
  true entries of \<^verbatim>\<open>win_if_staying\<close> to \<^verbatim>\<open>num_wins_if_staying\<close> and the number of true
  entries of \<^verbatim>\<open>win_if_switching\<close> to \<^verbatim>\<open>num_wins_if_switching\<close>; after two calls in sequence
  the three totals have grown by the length and the numbers of true entries of the two
  batches concatenated.
\<close>

theorem fold_accumulates:
  assumes "0 \<le> n1" and "0 \<le> n2"
  shows "\<exists>A B g1 g2 s1 s2.
     draw_batch n1 g = (Inr A, g1) \<and> sample n1 (s, g) = (Inr (), s1, g1) \<and>
     draw_batch n2 g1 = (Inr B, g2) \<and> sample n2 (s1, g1) = (Inr (), s2, g2) \<and>
     length (b_win_if_staying A) = nat n1 \<and> length (b_win_if_switching A) = nat n1 \<and>
     length (b_win_if_staying B) = nat n2 \<and> length (b_win_if_switching B) = nat n2 \<and>
     samples s1 = samples s + n1 \<and>
     num_wins_if_staying s1 = num_wins_if_staying s + count_true (b_win_if_staying A) \<and>
     num_wins_if_switching s1 = num_wins_if_switching s + count_true (b_win_if_switching A) \<and>
     samples s2 = samples s + int (length (b_win_if_staying A @ b_win_if_staying B)) \<and>
     num_wins_if_staying s2
       = num_wins_if_staying s + count_true (b_win_if_staying A @ b_win_if_staying B) \<and>
     num_wins_if_switching s2
       = num_wins_if_switching s + count_true (b_win_if_switching A @ b_win_if_switching B)"
  using assms
  by (simp add: draw_batch_ok [OF assms(1)] draw_batch_ok [OF assms(2)]
      sample_ok [OF assms(1)] sample_ok [OF assms(2)] prize_draws_length count_true_append)

theorem fold_accumulates_witness:
  "(0::int) \<le> 10 \<and> (0::int) \<le> 20 \<and>
   (\<exists>A B g1 g2 s1 s2.
     draw_batch 10 shifted_rng = (Inr A, g1) \<and>
     sample 10 (Simulation_init (0, False, False), shifted_rng) = (Inr (), s1, g1) \<and>
     draw_batch 20 g1 = (Inr B, g2) \<and> sample 20 (s1, g1) = (Inr (), s2, g2) \<and>
     count_true (b_win_if_staying A) = 3 \<and> count_true (b_win_if_staying B) = 6 \<and>
     samples s2 = 30 \<and> num_wins_if_staying s2 = 9)"
proof -
  let ?init = "Simulation_init (0, False, False)"
  have n1: "(0::int) \<le> 10" and n2: "(0::int) \<le> 20" by simp_all
  from fold_accumulates [OF n1 n2, of shifted_rng ?init]
  obtain A B g1 g2 s1 s2 where
    A: "draw_batch 10 shifted_rng = (Inr A, g1)" and
    s1: "sample 10 (?init, shifted_rng) = (Inr (), s1, g1)" and
    B: "draw_batch 20 g1 = (Inr B, g2)" and
    s2: "sample 20 (s1, g1) = (Inr (), s2, g2)" and
    len: "length (b_win_if_staying A) = nat 10" "length (b_win_if_staying B) = nat 20" and
    total: "samples s2 = samples ?init + int (length (b_win_if_staying A @ b_win_if_staying B))" and
    wins: "num_wins_if_staying s2
       = num_wins_if_staying ?init + count_true (b_win_if_staying A @ b_win_if_staying B)"
    by blast
  from A have g1: "g1 = advance (nat 10 + 1) shifted_rng"
    and stayA: "b_win_if_staying A = map (\<lambda>w. w = 1) (prize_draws 10 shifted_rng)"
    by (auto simp add: draw_batch_ok [OF n1])
  from B have stayB: "b_win_if_staying B = map (\<lambda>w. w = 1) (prize_draws 20 g1)"
    by (auto simp add: draw_batch_ok [OF n2])
  have cA: "count_true (b_win_if_staying A) = 3"
    by (simp only: stayA stay_first)
  have cB: "count_true (b_win_if_staying B) = 6"
    by (simp only: stayB g1 stay_second)
  from total len have t: "samples s2 = 30" by (simp add: Simulation_init_def)
  from wins cA cB have w: "num_wins_if_staying s2 = 9"
    by (simp add: count_true_append Simulation_init_def)
  from n1 n2 A s1 B s2 cA cB t w show ?thesis by blast
qed

text \<open>
  \<^bold>\<open>C8\<close> (determinism). Two calls \<^verbatim>\<open>sample(n)\<close> whose generators agree on the \<open>n + 1\<close> values
  drawn produce the same batch and the same result, whatever the two objects hold, and
  the same object when started from the same object. The call has no other effect: the
  generator has moved on by \<open>n + 1\<close> draws (by none when the call fails) and the three
  array attributes of the object are untouched.
\<close>

theorem sample_deterministic:
  assumes "\<forall>i \<le> nat n. g1 i = g2 i"
  shows "fst (draw_batch n g1) = fst (draw_batch n g2) \<and>
         fst (sample n (s1, g1)) = fst (sample n (s2, g2)) \<and>
         (s1 = s2 \<longrightarrow> fst (snd (sample n (s1, g1))) = fst (snd (sample n (s2, g2)))) \<and>
         snd (snd (sample n (s1, g1))) = (if 0 \<le> n then advance (nat n + 1) g1 else g1) \<and>
         winning_doors (fst (snd (sample n (s1, g1)))) = winning_doors s1 \<and>
         win_if_staying (fst (snd (sample n (s1, g1)))) = win_if_staying s1 \<and>
         win_if_switching (fst (snd (sample n (s1, g1)))) = win_if_switching s1"
proof (cases "0 \<le> n")
  case True
  from assms have "\<forall>i < nat n. g1 i = g2 i" by simp
  then have draws: "prize_draws n g1 = prize_draws n g2" by (rule prize_draws_cong)
  from assms have host: "host_draw n g1 = host_draw n g2" by (simp add: host_draw_def)
  show ?thesis
    using True by (simp add: draw_batch_ok sample_ok draws host)
next
  case False
  then have "n < 0" by simp
  then show ?thesis
    by (simp add: draw_batch_negative sample_negative)
qed

theorem sample_deterministic_witness:
  "other_host_rng = counting_rng(5 := 0) \<and>
   counting_rng \<noteq> other_host_rng \<and>
   fst (draw_batch 4 counting_rng) = fst (draw_batch 4 other_host_rng) \<and>
   fst (sample 4 (Simulation_init (0, False, False), counting_rng))
     = fst (sample 4 (Simulation_init (7, True, False), other_host_rng)) \<and>
   fst (snd (sample 4 (Simulation_init (0, False, False), counting_rng)))
     = fst (snd (sample 4 (Simulation_init (0, False, False), other_host_rng)))"
proof -
  have upd: "other_host_rng = counting_rng(5 := 0)"
    by (auto simp add: counting_rng_def other_host_rng_def fun_eq_iff)
  have agree: "\<forall>i \<le> nat 4. counting_rng i = other_host_rng i"
    by (simp add: counting_rng_def other_host_rng_def)
  have "counting_rng 5 \<noteq> other_host_rng 5"
    by (simp add: counting_rng_def other_host_rng_def)
  then have differ: "counting_rng \<noteq> other_host_rng" by metis
  from sample_deterministic [OF agree, of "Simulation_init (0, False, False)"
      "Simulation_init (7, True, False)"]
    sample_deterministic [OF agree, of "Simulation_init (0, False, False)"
      "Simulation_init (0, False, False)"]
    upd differ
  show ?thesis by simp
qed

text \<open>
  \<^bold>\<open>C9\<close> (scenario). When the five prize doors drawn by \<^verbatim>\<open>sample(5)\<close> are \<open>[1,2,3,1,2]\<close>,
  the stay outcomes are \<open>[T,F,F,T,F]\<close>, the switch outcomes their complement
  \<open>[F,T,T,F,T]\<close>, and a fresh object ends with \<open>2\<close> stay wins, \<open>3\<close> switch wins, \<open>5\<close>
  samples and the stay quotient \<open>2/5 = 0.4\<close>.
\<close>

theorem scenario:
  assumes "fst (randint_size 1 4 5 g) = Inr [1, 2, 3, 1, 2]"
  shows "\<exists>b g' s'.
     draw_batch 5 g = (Inr b, g') \<and>
     b_winning_doors b = [1, 2, 3, 1, 2] \<and>
     b_win_if_staying b = [True, False, False, True, False] \<and>
     b_win_if_switching b = [False, True, True, False, True] \<and>
     b_win_if_switching b = map Not (b_win_if_staying b) \<and>
     sample 5 (Simulation_init u, g) = (Inr (), s', g') \<and>
     num_wins_if_staying s' = 2 \<and> num_wins_if_switching s' = 3 \<and> samples s' = 5 \<and>
     py_truediv (num_wins_if_staying s') (samples s') = Inr (2 / 5)"
proof -
  from assms have draws: "prize_draws 5 g = [1, 2, 3, 1, 2]"
    by (simp add: randint_size_def prize_draws_def)
  show ?thesis
    by (simp add: draw_batch_ok sample_ok draws count_true_def Simulation_init_def
        py_truediv_def)
qed

theorem scenario_witness:
  "fst (randint_size 1 4 5 counting_rng) = Inr [1, 2, 3, 1, 2] \<and>
   (\<exists>b g' s'.
     draw_batch 5 counting_rng = (Inr b, g') \<and>
     b_winning_doors b = [1, 2, 3, 1, 2] \<and>
     b_win_if_staying b = [True, False, False, True, False] \<and>
     b_win_if_switching b = [False, True, True, False, True] \<and>
     b_win_if_switching b = map Not (b_win_if_staying b) \<and>
     sample 5 (Simulation_init (0, False, False), counting_rng) = (Inr (), s', g') \<and>
     num_wins_if_staying s' = 2 \<and> num_wins_if_switching s' = 3 \<and> samples s' = 5 \<and>
     py_truediv (num_wins_if_staying s') (samples s') = Inr (2 / 5))"
proof -
  have h: "fst (randint_size 1 4 5 counting_rng) = Inr [1, 2, 3, 1, 2]"
    using draws5 by (simp add: randint_size_def prize_draws_def)
  from h scenario [OF h, of "(0, False, False)"] show ?thesis by blast
qed

text \<open>
  \<^bold>\<open>C10\<close> (one shared host draw). A successful call draws the \<open>n\<close> prize doors and then
  exactly one further value, a door in \<open>{2,3}\<close>, whatever the prize doors are. The batch
  holds these prize doors; its switch doors are that one value wherever the prize door is
  \<open>1\<close> and the prize door elsewhere; its outcomes are "prize door is \<open>1\<close>" and "prize door
  is not \<open>1\<close>". A generator that differs in the host draw alone yields the same prize doors
  and the same two outcome arrays.
\<close>

theorem single_host_draw:
  assumes "0 \<le> n"
  shows "\<exists>b wd h.
     randint_size 1 4 n g = (Inr wd, advance (nat n) g) \<and>
     randint 2 4 (advance (nat n) g) = (Inr h, advance (nat n + 1) g) \<and>
     h \<in> {2, 3} \<and>
     draw_batch n g = (Inr b, advance (nat n + 1) g) \<and>
     b_winning_doors b = wd \<and>
     b_switch_doors b = map (\<lambda>w. if w = 1 then h else w) wd \<and>
     b_win_if_staying b = map (\<lambda>w. w = 1) wd \<and>
     b_win_if_switching b = map (\<lambda>w. w \<noteq> 1) wd \<and>
     (\<forall>i < nat n. b_winning_doors b ! i = 1 \<longrightarrow> b_switch_doors b ! i = h) \<and>
     (\<forall>g2. (\<forall>i. i \<noteq> nat n \<longrightarrow> g2 i = g i) \<longrightarrow>
        (\<exists>b2. draw_batch n g2 = (Inr b2, advance (nat n + 1) g2) \<and>
              b_winning_doors b2 = b_winning_doors b \<and>
              b_win_if_staying b2 = b_win_if_staying b \<and>
              b_win_if_switching b2 = b_win_if_switching b))"
proof -
  let ?wd = "prize_draws n g"
  let ?h = "host_draw n g"
  let ?b = "\<lparr>b_winning_doors = ?wd,
            b_switch_doors = map (\<lambda>w. if w = 1 then ?h else w) ?wd,
            b_win_if_staying = map (\<lambda>w. w = 1) ?wd,
            b_win_if_switching = map (\<lambda>w. w \<noteq> 1) ?wd\<rparr>"
  have prizes: "randint_size 1 4 n g = (Inr ?wd, advance (nat n) g)"
    using assms by (simp add: randint_size_def prize_draws_def)
  have host: "randint 2 4 (advance (nat n) g) = (Inr ?h, advance (nat n + 1) g)"
    by (simp add: randint_def host_draw_def advance_def)
  have door: "?h \<in> {2, 3}" by (rule host_draw_door)
  have batch: "draw_batch n g = (Inr ?b, advance (nat n + 1) g)"
    by (rule draw_batch_ok [OF assms])
  have doors: "b_winning_doors ?b = ?wd" by simp
  have switch: "b_switch_doors ?b = map (\<lambda>w. if w = 1 then ?h else w) ?wd" by simp
  have stay: "b_win_if_staying ?b = map (\<lambda>w. w = 1) ?wd" by simp
  have wins: "b_win_if_switching ?b = map (\<lambda>w. w \<noteq> 1) ?wd" by simp
  have shared: "\<forall>i < nat n. b_winning_doors ?b ! i = 1 \<longrightarrow> b_switch_doors ?b ! i = ?h"
    by (simp add: prize_draws_length)
  have indep: "\<forall>g2. (\<forall>i. i \<noteq> nat n \<longrightarrow> g2 i = g i) \<longrightarrow>
        (\<exists>b2. draw_batch n g2 = (Inr b2, advance (nat n + 1) g2) \<and>
              b_winning_doors b2 = b_winning_doors ?b \<and>
              b_win_if_staying b2 = b_win_if_staying ?b \<and>
              b_win_if_switching b2 = b_win_if_switching ?b)"
  proof (intro allI impI)
    fix g2 :: rng
    assume "\<forall>i. i \<noteq> nat n \<longrightarrow> g2 i = g i"
    then have "\<forall>i < nat n. g2 i = g i" by simp
    then have "prize_draws n g2 = prize_draws n g" by (rule prize_draws_cong)
    then show "\<exists>b2. draw_batch n g2 = (Inr b2, advance (nat n + 1) g2) \<and>
              b_winning_doors b2 = b_winning_doors ?b \<and>
              b_win_if_staying b2 = b_win_if_staying ?b \<and>
              b_win_if_switching b2 = b_win_if_switching ?b"
      by (simp add: draw_batch_ok [OF assms])
  qed
  show ?thesis
    by (intro exI [of _ ?b] exI [of _ ?wd] exI [of _ ?h] conjI
        prizes host door batch doors switch stay wins shared indep)
qed

theorem single_host_draw_witness:
  "(0::int) \<le> 5 \<and>
   other_host_rng = counting_rng(5 := 0) \<and>
   fst (randint_size 1 4 5 counting_rng) = Inr [1, 2, 3, 1, 2] \<and>
   fst (randint 2 4 (advance (nat 5) counting_rng)) = Inr 3 \<and>
   fst (randint 2 4 (advance (nat 5) other_host_rng)) = Inr 2 \<and>
   (\<exists>b b2. draw_batch 5 counting_rng = (Inr b, advance (nat 5 + 1) counting_rng) \<and>
      draw_batch 5 other_host_rng = (Inr b2, advance (nat 5 + 1) other_host_rng) \<and>
      b_winning_doors b = [1, 2, 3, 1, 2] \<and>
      b_switch_doors b = [3, 2, 3, 3, 2] \<and>
      b_switch_doors b2 = [2, 2, 3, 2, 2] \<and>
      b_win_if_staying b = [True, False, False, True, False] \<and>
      b_win_if_switching b = [False, True, True, False, True] \<and>
      b_winning_doors b2 = b_winning_doors b \<and>
      b_win_if_staying b2 = b_win_if_staying b \<and>
      b_win_if_switching b2 = b_win_if_switching b)"
proof -
  have n: "(0::int) \<le> 5" by simp
  have upd: "other_host_rng = counting_rng(5 := 0)"
    by (auto simp add: counting_rng_def other_host_rng_def fun_eq_iff)
  have agree: "\<forall>i. i \<noteq> nat 5 \<longrightarrow> other_host_rng i = counting_rng i"
    by (simp add: counting_rng_def other_host_rng_def)
  have p: "fst (randint_size 1 4 5 counting_rng) = Inr [1, 2, 3, 1, 2]"
    using draws5 by (simp add: randint_size_def prize_draws_def)
  have h1: "fst (randint 2 4 (advance (nat 5) counting_rng)) = Inr 3"
    by (simp add: randint_def advance_def reduce_def counting_rng_def)
  have h2: "fst (randint 2 4 (advance (nat 5) other_host_rng)) = Inr 2"
    by (simp add: randint_def advance_def reduce_def other_host_rng_def)
  from single_host_draw [OF n, of counting_rng]
  obtain b wd h where
    wd: "randint_size 1 4 5 counting_rng = (Inr wd, advance (nat 5) counting_rng)" and
    h: "randint 2 4 (advance (nat 5) counting_rng) = (Inr h, advance (nat 5 + 1) counting_rng)" and
    b: "draw_batch 5 counting_rng = (Inr b, advance (nat 5 + 1) counting_rng)" and
    doors: "b_winning_doors b = wd" and
    switch: "b_switch_doors b = map (\<lambda>w. if w = 1 then h else w) wd" and
    stay: "b_win_if_staying b = map (\<lambda>w. w = 1) wd" and
    wins: "b_win_if_switching b = map (\<lambda>w. w \<noteq> 1) wd" and
    indep: "\<forall>g2. (\<forall>i. i \<noteq> nat 5 \<longrightarrow> g2 i = counting_rng i) \<longrightarrow>
        (\<exists>b2. draw_batch 5 g2 = (Inr b2, advance (nat 5 + 1) g2) \<and>
              b_winning_doors b2 = b_winning_doors b \<and>
              b_win_if_staying b2 = b_win_if_staying b \<and>
              b_win_if_switching b2 = b_win_if_switching b)"
    by blast
  from wd p have wd5: "wd = [1, 2, 3, 1, 2]" by simp
  from h h1 have h3: "h = 3" by simp
  from indep agree obtain b2 where
    b2: "draw_batch 5 other_host_rng = (Inr b2, advance (nat 5 + 1) other_host_rng)" and
    same: "b_winning_doors b2 = b_winning_doors b" "b_win_if_staying b2 = b_win_if_staying b"
      "b_win_if_switching b2 = b_win_if_switching b"
    by blast
  from b2 have sw2: "b_switch_doors b2 = [2, 2, 3, 2, 2]"
    by (auto simp add: draw_batch_ok [OF n] draws5_other host5_other)
  have vals: "b_winning_doors b = [1, 2, 3, 1, 2]" "b_switch_doors b = [3, 2, 3, 3, 2]"
    "b_win_if_staying b = [True, False, False, True, False]"
    "b_win_if_switching b = [False, True, True, False, True]"
    by (simp_all add: doors switch stay wins wd5 h3)
  from n upd p h1 h2 b b2 vals sw2 same show ?thesis by blast
qed

end
